theory Spec2Isabelle
  imports Main "HOL-Library.Word"
begin

unbundle bit_operations_syntax

section \<open>Bluetooth firmware update (bfu.py): data model\<close>

text \<open>
  Python \<open>bytes\<close> objects are lists of 8-bit words, Python integers are \<open>int\<close>.
  Every exception the modelled code can raise is a value of \<open>error\<close>; the
  \<open>Context\<close> manager of the source turns each of them into a message and \<open>exit(1)\<close>,
  so an \<open>Inl\<close> outcome of the session is the failed run.
\<close>

type_synonym byte = "8 word"
type_synonym bytes = "byte list"

datatype error =
    OverflowError
  | ValueError
  | RecvTimeout
  | TransferDidNotBegin
  | PacketSendError int int
  | EndRejected
  | ArgumentError string

subsection \<open>Class constants of \<open>FirmwareUpdater\<close>\<close>

definition UPD_BEG :: bytes where "UPD_BEG = [0xAA]"
definition UPD_ERR :: bytes where "UPD_ERR = [0xEE]"
definition UPD_END :: bytes where "UPD_END = [0xFF]"

definition PKG_ACK :: bytes where "PKG_ACK = [0xFF]"
definition PKG_ERR :: bytes where "PKG_ERR = [0xEE]"
definition PKG_PAN :: bytes where "PKG_PAN = [0xAA]"

definition PKG_SIZE :: int where "PKG_SIZE = 2"
definition CRC_SIZE :: int where "CRC_SIZE = 4"

text \<open>The announcement \<open>b'firmware_update'\<close> sent first by \<open>upload_firmware\<close>.\<close>

definition firmware_update :: bytes where
  "firmware_update =
     [0x66, 0x69, 0x72, 0x6D, 0x77, 0x61, 0x72, 0x65, 0x5F,
      0x75, 0x70, 0x64, 0x61, 0x74, 0x65]"

subsection \<open>Library functions used by the code\<close>

text \<open>
  \<open>int.to_bytes(length, byteorder='little', signed=False)\<close>: the little-endian digits
  of the number, and \<open>OverflowError\<close> for a negative number or one that needs more
  than \<open>length\<close> bytes.
\<close>

fun le_bytes :: "nat \<Rightarrow> int \<Rightarrow> bytes" where
  "le_bytes 0 n = []"
| "le_bytes (Suc k) n = word_of_int (n mod 256) # le_bytes k (n div 256)"

definition to_bytes :: "int \<Rightarrow> nat \<Rightarrow> error + bytes" where
  "to_bytes n len =
     (if n < 0 \<or> 256 ^ len \<le> n then Inl OverflowError else Inr (le_bytes len n))"

text \<open>The value a little-endian byte string stands for (what the receiver reads back).\<close>

fun le_value :: "bytes \<Rightarrow> int" where
  "le_value [] = 0"
| "le_value (b # bs) = uint b + 256 * le_value bs"

text \<open>
  \<open>zlib.crc32(data)\<close>: the CRC-32 of the standard (reflected) polynomial
  \<open>0xEDB88320\<close>, register initialised to all ones, result complemented.
\<close>

definition crc_shift :: "32 word \<Rightarrow> 32 word" where
  "crc_shift c = (if bit c 0 then drop_bit 1 c XOR 0xEDB88320 else drop_bit 1 c)"

definition crc_byte :: "32 word \<Rightarrow> byte \<Rightarrow> 32 word" where
  "crc_byte c b =
     crc_shift (crc_shift (crc_shift (crc_shift
       (crc_shift (crc_shift (crc_shift (crc_shift (c XOR ucast b))))))))"

definition crc32 :: "bytes \<Rightarrow> int" where
  "crc32 dat = uint (NOT (foldl crc_byte 0xFFFFFFFF dat))"

text \<open>
  \<open>f.read(n)\<close> on the file opened with \<open>open(path, 'rb')\<close>, whose unread part is
  \<open>rest\<close>: up to \<open>n\<close> bytes for \<open>n \<ge> 0\<close>, everything that is left for \<open>n = -1\<close>, and
  \<open>ValueError\<close> for \<open>n < -1\<close> (the buffered reader accepts no other negative length).
  The result is the data read and the new unread part.
\<close>

definition f_read :: "bytes \<Rightarrow> int \<Rightarrow> error + bytes \<times> bytes" where
  "f_read rest n =
     (if n < -1 then Inl ValueError
      else if n = -1 then Inr (rest, [])
      else Inr (take (nat n) rest, drop (nat n) rest))"

subsection \<open>The socket\<close>

text \<open>
  The connected \<open>BluetoothSocket\<close> is the log of the byte strings handed to \<open>send\<close>,
  oldest first, and the replies of the device still to come. \<open>recv(1)\<close> returns the
  next reply; the socket has a timeout (\<open>settimeout\<close> in \<open>__init__\<close>), so when the
  device stays silent (\<open>NoReply\<close>, or nothing left) \<open>recv\<close> raises.
\<close>

datatype reply = Reply bytes | NoReply

record sock =
  sent :: "bytes list"
  inbox :: "reply list"

definition send :: "bytes \<Rightarrow> sock \<Rightarrow> sock" where
  "send b s = s\<lparr>sent := sent s @ [b]\<rparr>"

definition recv :: "sock \<Rightarrow> (error + bytes) \<times> sock" where
  "recv s =
     (case inbox s of
        [] \<Rightarrow> (Inl RecvTimeout, s)
      | NoReply # rs \<Rightarrow> (Inl RecvTimeout, s\<lparr>inbox := rs\<rparr>)
      | Reply b # rs \<Rightarrow> (Inr b, s\<lparr>inbox := rs\<rparr>))"

section \<open>\<open>FirmwareUpdater\<close>\<close>

text \<open>
  The keyword arguments of \<open>__init__\<close> (\<open>kwargs.pop(name, default)\<close>) and the fields it
  sets. Device lookup and connection are the caller's: the model starts from a
  connected socket.
\<close>

record kwargs =
  kw_timeout :: "int option"
  kw_packsize :: "int option"
  kw_attempts :: "int option"
  kw_verbose :: "int option"

record updater =
  timeout :: int
  packsize :: int
  attempts :: int
  verbose :: int

definition pop :: "'a option \<Rightarrow> 'a \<Rightarrow> 'a" where
  "pop v d = (case v of None \<Rightarrow> d | Some x \<Rightarrow> x)"

definition init :: "kwargs \<Rightarrow> updater" where
  "init kw =
     \<lparr>timeout = pop (kw_timeout kw) 1,
      packsize = pop (kw_packsize kw) 512 - CRC_SIZE - PKG_SIZE,
      attempts = pop (kw_attempts kw) 3,
      verbose = pop (kw_verbose kw) 0\<rparr>"

subsection \<open>\<open>prepare_packets\<close>\<close>

text \<open>
  The \<open>while size > 0\<close> loop, on the loop variables \<open>size\<close> (here \<open>sz\<close>), the unread part of the
  file, \<open>result\<close> and \<open>self.full_size\<close>. The loop need not end, so it is a partial
  function: \<open>None\<close> is "does not return".
\<close>

partial_function (option) prepare_loop ::
  "int \<Rightarrow> int \<Rightarrow> bytes \<Rightarrow> bytes list \<Rightarrow> int \<Rightarrow> (error + bytes list \<times> int) option"
where
  "prepare_loop psize sz rest result full_size =
     (if sz > 0 then
        (let dat_size = min psize sz
         in case f_read rest dat_size of
              Inl e \<Rightarrow> Some (Inl e)
            | Inr (dat, rest') \<Rightarrow>
                (case to_bytes (crc32 dat) 4 of
                   Inl e \<Rightarrow> Some (Inl e)
                 | Inr crc \<Rightarrow>
                     (case to_bytes dat_size 2 of
                        Inl e \<Rightarrow> Some (Inl e)
                      | Inr ds_byte \<Rightarrow>
                          prepare_loop psize (sz - dat_size) rest'
                            (result @ [ds_byte @ crc @ dat])
                            (full_size + int (length (ds_byte @ crc @ dat))))))
      else Some (Inr (result, full_size)))"

declare prepare_loop.simps [code]

text \<open>
  \<open>prepare_packets\<close> on a file with contents \<open>file\<close>: \<open>os.path.getsize\<close> is its length.
  The result is the packet list and \<open>self.full_size\<close>.
\<close>

definition prepare_packets :: "int \<Rightarrow> bytes \<Rightarrow> (error + bytes list \<times> int) option" where
  "prepare_packets psize file = prepare_loop psize (int (length file)) file [] 0"

subsection \<open>\<open>send_packet\<close>\<close>

text \<open>
  The \<open>for i in range(self.attempts)\<close> loop with \<open>n\<close> iterations left, then the code
  after the loop.
\<close>

fun send_attempts :: "nat \<Rightarrow> bytes \<Rightarrow> sock \<Rightarrow> (error + bool) \<times> sock" where
  "send_attempts 0 packet s = (Inr False, send UPD_ERR s)"
| "send_attempts (Suc n) packet s =
     (case recv (send packet s) of
        (Inl e, s') \<Rightarrow> (Inl e, s')
      | (Inr ret, s') \<Rightarrow>
          if ret = PKG_ACK then (Inr True, s')
          else if ret = PKG_PAN then (Inr False, s')
          else send_attempts n packet s')"

definition send_packet :: "updater \<Rightarrow> bytes \<Rightarrow> sock \<Rightarrow> (error + bool) \<times> sock" where
  "send_packet u packet s = send_attempts (nat (attempts u)) packet s"

subsection \<open>\<open>upload_firmware\<close>\<close>

text \<open>
  The \<open>for i, p in enumerate(self.packets)\<close> loop; \<open>i\<close> is the index of the head of
  the remaining packets and \<open>n\<close> is \<open>len(self.packets)\<close>. Progress output goes to the
  console and is left out.
\<close>

fun send_packets :: "updater \<Rightarrow> int \<Rightarrow> int \<Rightarrow> bytes list \<Rightarrow> sock \<Rightarrow> (error + unit) \<times> sock" where
  "send_packets u i n [] s = (Inr (), s)"
| "send_packets u i n (p # ps) s =
     (case send_packet u p s of
        (Inl e, s') \<Rightarrow> (Inl e, s')
      | (Inr ok, s') \<Rightarrow>
          if \<not> ok then (Inl (PacketSendError (i + 1) n), s')
          else send_packets u (i + 1) n ps s')"

text \<open>The three \<open>with Context(...)\<close> blocks that talk to the device, given the packets.\<close>

definition transaction :: "updater \<Rightarrow> bytes list \<Rightarrow> sock \<Rightarrow> (error + unit) \<times> sock" where
  "transaction u packets s =
     (case recv (send firmware_update s) of
        (Inl e, s1) \<Rightarrow> (Inl e, s1)
      | (Inr _, s1) \<Rightarrow>
          (case recv (send UPD_BEG s1) of
             (Inl e, s2) \<Rightarrow> (Inl e, s2)
           | (Inr r, s2) \<Rightarrow>
               if r \<noteq> PKG_ACK then (Inl TransferDidNotBegin, s2)
               else
                 (case send_packets u 0 (int (length packets)) packets s2 of
                    (Inl e, s3) \<Rightarrow> (Inl e, s3)
                  | (Inr _, s3) \<Rightarrow>
                      (case recv (send UPD_END s3) of
                         (Inl e, s4) \<Rightarrow> (Inl e, s4)
                       | (Inr r, s4) \<Rightarrow>
                           if r \<noteq> PKG_ACK then (Inl EndRejected, s4)
                           else (Inr (), s4)))))"

text \<open>
  \<open>upload_firmware\<close> on a file with contents \<open>file\<close>. A run that returns gives the
  outcome, \<open>self.full_size\<close> when it is the normal one, and the socket at the end.
  The elapsed time and the speed printed from it are floating-point values read from
  the clock and are left out.
\<close>

definition upload_firmware ::
  "updater \<Rightarrow> bytes \<Rightarrow> sock \<Rightarrow> ((error + int) \<times> sock) option" where
  "upload_firmware u file s =
     (case prepare_packets (packsize u) file of
        None \<Rightarrow> None
      | Some (Inl e) \<Rightarrow> Some (Inl e, s)
      | Some (Inr (packets, full_size)) \<Rightarrow>
          (case transaction u packets s of
             (Inl e, s') \<Rightarrow> Some (Inl e, s')
           | (Inr _, s') \<Rightarrow> Some (Inr full_size, s')))"

section \<open>Command line\<close>

text \<open>\<open>check_size\<close>; \<open>parser.error\<close> prints the message and leaves the program.\<close>

definition check_size :: "int \<Rightarrow> error + int" where
  "check_size sz =
     (if sz \<le> 0 then Inl (ArgumentError ''Size must be positive!'')
      else if sz > 512 then Inl (ArgumentError ''Size must be no more than 512!'')
      else Inr sz)"

text \<open>
  The parsed arguments that reach the updater, and the constructor call of \<open>main\<close>:
  \<open>FirmwareUpdater(target, args.path, verbose=args.verbose, packsize=args.packsize)\<close>.
\<close>

record args =
  attemtps :: int
  arg_packsize :: int
  arg_verbose :: int

definition main_kwargs :: "args \<Rightarrow> kwargs" where
  "main_kwargs a =
     \<lparr>kw_timeout = None, kw_packsize = Some (arg_packsize a),
      kw_attempts = None, kw_verbose = Some (arg_verbose a)\<rparr>"

definition main_updater :: "args \<Rightarrow> updater" where
  "main_updater a = init (main_kwargs a)"

section \<open>What the receiver reads in a packet\<close>

text \<open>
  A packet is the 2-byte length, the 4-byte checksum and the data, in this order
  (\<open>b''.join([ds_byte, crc, dat])\<close>); these are the three fields read back.
\<close>

definition stored_length :: "bytes \<Rightarrow> int" where
  "stored_length pkt = le_value (take 2 pkt)"

definition stored_crc :: "bytes \<Rightarrow> int" where
  "stored_crc pkt = le_value (take 4 (drop 2 pkt))"

definition payload :: "bytes \<Rightarrow> bytes" where
  "payload pkt = drop 6 pkt"

text \<open>
  Two functions used in the proofs only: the packet built from one chunk of data, and
  the cutting of the file into chunks of \<open>c\<close> bytes that the loop performs when
  \<open>c\<close> is positive.
\<close>

definition frame_of :: "bytes \<Rightarrow> bytes" where
  "frame_of dat = le_bytes 2 (int (length dat)) @ le_bytes 4 (crc32 dat) @ dat"

function chunks :: "nat \<Rightarrow> bytes \<Rightarrow> bytes list" where
  "chunks c xs = (if c = 0 \<or> xs = [] then [] else take c xs # chunks c (drop c xs))"
  by pat_completeness auto
termination
  by (relation "measure (\<lambda>(c, xs). length xs)") auto

declare chunks.simps [simp del]

section \<open>Byte strings and checksums\<close>

lemma length_le_bytes [simp]: "length (le_bytes k n) = k"
  by (induction k arbitrary: n) simp_all

lemma le_value_le_bytes: "0 \<le> n \<Longrightarrow> n < 256 ^ k \<Longrightarrow> le_value (le_bytes k n) = n"
proof (induction k arbitrary: n)
  case 0
  then show ?case by simp
next
  case (Suc k)
  have "n div 256 < 256 ^ k" using Suc.prems by (simp add: div_less_iff_less_mult) 
  moreover have "0 \<le> n div 256" using Suc.prems by simp
  ultimately have "le_value (le_bytes k (n div 256)) = n div 256" by (rule Suc.IH[rotated])
  moreover have "uint (word_of_int (n mod 256) :: byte) = n mod 256"
    by (simp add: uint_word_of_int)
  ultimately show ?case by simp
qed

lemma crc32_range: "0 \<le> crc32 dat \<and> crc32 dat < 256 ^ 4"
proof -
  have "uint (NOT (foldl crc_byte 0xFFFFFFFF dat)) < 2 ^ 32"
    using uint_bounded [of "NOT (foldl crc_byte 0xFFFFFFFF dat)"] by simp
  then show ?thesis by (simp add: crc32_def)
qed

lemma to_bytes_crc32: "to_bytes (crc32 dat) 4 = Inr (le_bytes 4 (crc32 dat))"
  using crc32_range [of dat] by (simp add: to_bytes_def)

lemma to_bytes_2: "0 \<le> n \<Longrightarrow> n < 65536 \<Longrightarrow> to_bytes n 2 = Inr (le_bytes 2 n)"
  by (simp add: to_bytes_def)

lemma f_read_nonneg:
  "0 \<le> n \<Longrightarrow> f_read rest n = Inr (take (nat n) rest, drop (nat n) rest)"
  by (simp add: f_read_def)

lemma chunks_concat: "0 < c \<Longrightarrow> concat (chunks c xs) = xs"
proof (induction c xs rule: chunks.induct)
  case (1 c xs)
  then show ?case by (subst chunks.simps) auto
qed

lemma chunks_length: "0 < c \<Longrightarrow> x \<in> set (chunks c xs) \<Longrightarrow> 0 < length x \<and> length x \<le> c"
proof (induction c xs rule: chunks.induct)
  case (1 c xs)
  show ?case
  proof (cases "xs = []")
    case True
    with "1.prems" show ?thesis by (simp add: chunks.simps)
  next
    case False
    have "chunks c xs = take c xs # chunks c (drop c xs)"
      using False "1.prems"(1) by (subst chunks.simps) simp
    with "1.prems" have "x = take c xs \<or> x \<in> set (chunks c (drop c xs))"
      by simp
    then show ?thesis
    proof
      assume "x = take c xs"
      with False "1.prems"(1) show ?thesis by simp
    next
      assume "x \<in> set (chunks c (drop c xs))"
      with "1.IH" False "1.prems"(1) show ?thesis by simp
    qed
  qed
qed

lemma prepare_loop_chunks:
  assumes "0 < c" and "min c (int (length rest)) < 65536"
  shows "prepare_loop c (int (length rest)) rest result fs =
           Some (Inr (result @ map frame_of (chunks (nat c) rest),
                      fs + int (length rest) + 6 * int (length (chunks (nat c) rest))))"
  using assms(2)
proof (induction "length rest" arbitrary: rest result fs rule: less_induct)
  case less
  show ?case
  proof (cases "rest = []")
    case True
    then show ?thesis by (subst prepare_loop.simps) (simp add: chunks.simps)
  next
    case False
    let ?d = "min c (int (length rest))"
    have pos: "0 < int (length rest)" using False by simp
    have d: "0 < ?d" "?d < 65536" using assms(1) pos less.prems by arith+
    have rd: "f_read rest ?d = Inr (take (nat c) rest, drop (nat c) rest)"
      using d by (auto simp: f_read_def min_def)
    have len: "int (length (take (nat c) rest)) = ?d" using assms(1) by (auto simp: min_def)
    have tb: "to_bytes ?d 2 = Inr (le_bytes 2 ?d)"
    proof (rule to_bytes_2)
      show "0 \<le> ?d" using d(1) by linarith
      show "?d < 65536" by (rule d(2))
    qed
    have sz: "int (length rest) - ?d = int (length (drop (nat c) rest))"
      using assms(1) by (auto simp: min_def)
    have lt: "length (drop (nat c) rest) < length rest" using assms(1) False by simp
    have "int (length (drop (nat c) rest)) \<le> int (length rest)" by simp
    with less.prems have m: "min c (int (length (drop (nat c) rest))) < 65536" by arith
    have ch: "chunks (nat c) rest = take (nat c) rest # chunks (nat c) (drop (nat c) rest)"
      using assms(1) False by (subst chunks.simps) simp
    have fr: "le_bytes 2 ?d @ le_bytes 4 (crc32 (take (nat c) rest)) @ take (nat c) rest
             = frame_of (take (nat c) rest)"
      unfolding frame_of_def len ..
    have flen: "int (length (frame_of (take (nat c) rest))) = 6 + ?d"
      unfolding len [symmetric] by (simp add: frame_of_def)
    have "prepare_loop c (int (length rest)) rest result fs =
          prepare_loop c (int (length (drop (nat c) rest))) (drop (nat c) rest)
            (result @ [frame_of (take (nat c) rest)]) (fs + (6 + ?d))"
      by (subst prepare_loop.simps)
        (simp only: Let_def rd prod.case to_bytes_crc32 tb sum.case sz fr flen pos if_True)
    also have "\<dots> = Some (Inr ((result @ [frame_of (take (nat c) rest)]) @ map frame_of (chunks (nat c) (drop (nat c) rest)),
                 (fs + (6 + ?d)) + int (length (drop (nat c) rest)) + 6 * int (length (chunks (nat c) (drop (nat c) rest)))))"
      by (rule less.hyps [OF lt m])
    finally show ?thesis using sz by (simp add: ch)
  qed
qed

lemma prepare_loop_stuck:
  assumes "prepare_loop psize sz rest result fs = Some y"
  shows "\<not> (psize = 0 \<and> 0 < sz)"
proof (rule prepare_loop.raw_induct
    [where P = "\<lambda>psize sz rest result fs y. \<not> (psize = 0 \<and> 0 < sz)", OF _ assms], goal_cases)
  case (1 f psize sz rest result fs y)
  show ?case
  proof
    assume a: "psize = 0 \<and> 0 < sz"
    have "to_bytes 0 2 = Inr (le_bytes 2 0)" by (simp add: to_bytes_def)
    moreover have "f_read rest 0 = Inr ([], rest)" by (simp add: f_read_def)
    ultimately obtain r' res' fs' where "f 0 sz r' res' fs' = Some y"
      using 1(2) a by (auto simp: Let_def to_bytes_crc32)
    from 1(1) [OF this] a show False by simp
  qed
qed

lemma prepare_loop_negative:
  "psize < 0 \<Longrightarrow> 0 < sz \<Longrightarrow>
   prepare_loop psize sz rest result fs =
     Some (Inl (if psize < -1 then ValueError else OverflowError))"
proof -
  assume a: "psize < 0" "0 < sz"
  then have m: "min psize sz = psize" by simp
  have tb: "to_bytes psize 2 = Inl OverflowError" using a by (simp add: to_bytes_def)
  show ?thesis
  proof (cases "psize < -1")
    case True
    then have "f_read rest psize = Inl ValueError" by (simp add: f_read_def)
    with a True show ?thesis by (subst prepare_loop.simps) (simp add: Let_def m)
  next
    case False
    with a have "f_read rest psize = Inr (rest, [])" by (simp add: f_read_def)
    with a False tb show ?thesis
      by (subst prepare_loop.simps) (simp add: Let_def m to_bytes_crc32)
  qed
qed

lemma prepare_loop_too_big:
  "65536 \<le> psize \<Longrightarrow> 65536 \<le> sz \<Longrightarrow> prepare_loop psize sz rest result fs = Some (Inl OverflowError)"
proof -
  assume a: "65536 \<le> psize" "65536 \<le> sz"
  then have "to_bytes (min psize sz) 2 = Inl OverflowError" by (simp add: to_bytes_def)
  moreover have "0 \<le> min psize sz" using a by simp
  then have "\<exists>dat rest'. f_read rest (min psize sz) = Inr (dat, rest')"
    by (blast dest: f_read_nonneg)
  ultimately show ?thesis
    using a by (subst prepare_loop.simps) (auto simp: Let_def to_bytes_crc32)
qed

section \<open>The retry loop and the packet loop\<close>

lemma recv_reply:
  "inbox s = Reply b # rs \<Longrightarrow> recv (send p s) = (Inr b, s\<lparr>sent := sent s @ [p], inbox := rs\<rparr>)"
  by (simp add: recv_def send_def)

lemma recv_noreply:
  "inbox s = NoReply # rs \<Longrightarrow> recv (send p s) = (Inl RecvTimeout, s\<lparr>sent := sent s @ [p], inbox := rs\<rparr>)"
  by (simp add: recv_def send_def)

lemma recv_silent:
  "inbox s = [] \<Longrightarrow> recv (send p s) = (Inl RecvTimeout, s\<lparr>sent := sent s @ [p]\<rparr>)"
  by (simp add: recv_def send_def)

lemma send_attempts_others:
  "length bs \<le> n \<Longrightarrow> \<forall>b\<in>set bs. b \<noteq> PKG_ACK \<and> b \<noteq> PKG_PAN \<Longrightarrow>
   inbox s = map Reply bs @ rest \<Longrightarrow>
   send_attempts n p s =
     send_attempts (n - length bs) p (s\<lparr>sent := sent s @ replicate (length bs) p, inbox := rest\<rparr>)"
proof (induction bs arbitrary: n s)
  case Nil
  then show ?case by (cases s) simp
next
  case (Cons b bs)
  from Cons.prems(1) obtain m where n: "n = Suc m" and m: "length bs \<le> m"
    by (cases n) auto
  let ?s = "s\<lparr>sent := sent s @ [p], inbox := map Reply bs @ rest\<rparr>"
  have "send_attempts n p s = send_attempts m p ?s"
    using Cons.prems(2,3) by (simp add: n recv_reply)
  also have "\<dots> = send_attempts (m - length bs) p
      (?s\<lparr>sent := sent ?s @ replicate (length bs) p, inbox := rest\<rparr>)"
    using Cons.prems(2) by (intro Cons.IH [OF m]) simp_all
  finally show ?case by (simp add: n replicate_append_same)
qed

lemma send_attempts_exhausted:
  assumes "length bs = n" "\<forall>b\<in>set bs. b \<noteq> PKG_ACK \<and> b \<noteq> PKG_PAN" "inbox s = map Reply bs @ rest"
  shows "send_attempts n p s =
     (Inr False, s\<lparr>sent := sent s @ replicate n p @ [UPD_ERR], inbox := rest\<rparr>)"
  using send_attempts_others [of bs n s rest p] assms by (simp add: send_def)

lemma send_attempts_ack:
  assumes "length bs < n" "\<forall>b\<in>set bs. b \<noteq> PKG_ACK \<and> b \<noteq> PKG_PAN"
    "inbox s = map Reply bs @ Reply PKG_ACK # rest"
  shows "send_attempts n p s =
     (Inr True, s\<lparr>sent := sent s @ replicate (Suc (length bs)) p, inbox := rest\<rparr>)"
proof -
  from assms(1) obtain m where m: "n - length bs = Suc m" by (cases "n - length bs") auto
  show ?thesis
    using send_attempts_others [of bs n s "Reply PKG_ACK # rest" p] assms
    by (simp add: m recv_reply replicate_append_same)
qed

lemma send_attempts_pan:
  assumes "length bs < n" "\<forall>b\<in>set bs. b \<noteq> PKG_ACK \<and> b \<noteq> PKG_PAN"
    "inbox s = map Reply bs @ Reply PKG_PAN # rest"
  shows "send_attempts n p s =
     (Inr False, s\<lparr>sent := sent s @ replicate (Suc (length bs)) p, inbox := rest\<rparr>)"
proof -
  from assms(1) obtain m where m: "n - length bs = Suc m" by (cases "n - length bs") auto
  have "PKG_PAN \<noteq> PKG_ACK" by (simp add: PKG_PAN_def PKG_ACK_def)
  then show ?thesis
    using send_attempts_others [of bs n s "Reply PKG_PAN # rest" p] assms
    by (simp add: m recv_reply replicate_append_same)
qed

lemma send_attempts_timeout:
  assumes "length bs < n" "\<forall>b\<in>set bs. b \<noteq> PKG_ACK \<and> b \<noteq> PKG_PAN"
    "inbox s = map Reply bs @ NoReply # rest"
  shows "send_attempts n p s =
     (Inl RecvTimeout, s\<lparr>sent := sent s @ replicate (Suc (length bs)) p, inbox := rest\<rparr>)"
proof -
  from assms(1) obtain m where m: "n - length bs = Suc m" by (cases "n - length bs") auto
  show ?thesis
    using send_attempts_others [of bs n s "NoReply # rest" p] assms
    by (simp add: m recv_noreply replicate_append_same)
qed

lemma send_attempts_sent:
  "\<exists>m\<le>n. sent (snd (send_attempts n p s)) = sent s @ replicate m p
        \<or> sent (snd (send_attempts n p s)) = sent s @ replicate m p @ [UPD_ERR]"
proof (induction n arbitrary: s)
  case 0
  have "sent (snd (send_attempts 0 p s)) = sent s @ replicate 0 p @ [UPD_ERR]"
    by (simp add: send_def)
  then show ?case by blast
next
  case (Suc n)
  show ?case
  proof (cases "recv (send p s)")
    case (Pair r s')
    have s': "sent s' = sent s @ [p]"
      using Pair by (auto simp: recv_def send_def split: list.splits reply.splits)
    show ?thesis
    proof (cases "\<exists>b. r = Inr b \<and> b \<noteq> PKG_ACK \<and> b \<noteq> PKG_PAN")
      case True
      then have eq: "send_attempts (Suc n) p s = send_attempts n p s'"
        using Pair by auto
      from Suc.IH [of s'] obtain m where m: "m \<le> n"
        "sent (snd (send_attempts n p s')) = sent s' @ replicate m p
          \<or> sent (snd (send_attempts n p s')) = sent s' @ replicate m p @ [UPD_ERR]" by blast
      have "Suc m \<le> Suc n" using m(1) by simp
      moreover have "sent (snd (send_attempts (Suc n) p s)) = sent s @ replicate (Suc m) p
          \<or> sent (snd (send_attempts (Suc n) p s)) = sent s @ replicate (Suc m) p @ [UPD_ERR]"
        using m(2) unfolding eq by (simp add: s')
      ultimately show ?thesis by blast
    next
      case False
      then have "snd (send_attempts (Suc n) p s) = s'"
        using Pair by (cases r) auto
      then have "sent (snd (send_attempts (Suc n) p s)) = sent s @ replicate (Suc 0) p"
        by (simp add: s')
      moreover have "Suc 0 \<le> Suc n" by simp
      ultimately show ?thesis by blast
    qed
  qed
qed

lemma send_packets_append:
  "send_packets u i n ps s = (Inr (), s1) \<Longrightarrow>
   send_packets u i n (ps @ qs) s = send_packets u (i + int (length ps)) n qs s1"
proof (induction ps arbitrary: i s)
  case Nil
  then show ?case by simp
next
  case (Cons p ps)
  from Cons.prems obtain s' where sp: "send_packet u p s = (Inr True, s')"
    and rest: "send_packets u (i + 1) n ps s' = (Inr (), s1)"
    by (auto split: prod.splits sum.splits if_splits)
  from Cons.IH [OF rest] show ?case by (simp add: sp add.assoc)
qed

lemma send_packets_fail:
  "send_packets u i n ps s = (Inr (), s1) \<Longrightarrow> send_packet u p s1 = (Inr False, s2) \<Longrightarrow>
   send_packets u i n (ps @ p # qs) s = (Inl (PacketSendError (i + int (length ps) + 1) n), s2)"
  by (simp add: send_packets_append)

lemma send_packet_ack_first:
  "0 < attempts u \<Longrightarrow> inbox s = Reply PKG_ACK # rest \<Longrightarrow>
   send_packet u p s = (Inr True, s\<lparr>sent := sent s @ [p], inbox := rest\<rparr>)"
  using send_attempts_ack [of "[]" "nat (attempts u)" s rest p]
  by (simp add: send_packet_def)

section \<open>Packets of a file\<close>

lemma chunks_length_le: "x \<in> set (chunks c xs) \<Longrightarrow> length x \<le> length xs"
proof (induction c xs rule: chunks.induct)
  case (1 c xs)
  show ?case
  proof (cases "c = 0 \<or> xs = []")
    case True
    with "1.prems" show ?thesis by (simp add: chunks.simps)
  next
    case False
    then have "chunks c xs = take c xs # chunks c (drop c xs)"
      by (subst chunks.simps) simp
    with "1.prems" have "x = take c xs \<or> x \<in> set (chunks c (drop c xs))" by simp
    then show ?thesis
    proof
      assume "x = take c xs"
      then show ?thesis by simp
    next
      assume "x \<in> set (chunks c (drop c xs))"
      with "1.IH" False have "length x \<le> length (drop c xs)" by simp
      then show ?thesis by simp
    qed
  qed
qed

lemma payload_frame_of: "payload (frame_of dat) = dat"
  by (simp add: payload_def frame_of_def)

lemma stored_length_frame_of:
  "length dat < 65536 \<Longrightarrow> stored_length (frame_of dat) = int (length dat)"
  by (simp add: stored_length_def frame_of_def le_value_le_bytes)

lemma stored_crc_frame_of: "stored_crc (frame_of dat) = crc32 dat"
  using crc32_range [of dat] by (simp add: stored_crc_def frame_of_def le_value_le_bytes)

lemma prepare_packets_chunks:
  assumes "0 < c" and "min c (int (length src)) < 65536"
  shows "prepare_packets c src =
           Some (Inr (map frame_of (chunks (nat c) src),
                      int (length src) + 6 * int (length (chunks (nat c) src))))"
  using prepare_loop_chunks [OF assms, of "[]" 0] by (simp add: prepare_packets_def)

lemma prepare_packets_empty: "prepare_packets c [] = Some (Inr ([], 0))"
  unfolding prepare_packets_def by (subst prepare_loop.simps) simp

lemma prepare_packets_zero: "src \<noteq> [] \<Longrightarrow> prepare_packets 0 src = None"
proof (cases "prepare_packets 0 src")
  case None
  then show ?thesis .
next
  case (Some y)
  assume "src \<noteq> []"
  with prepare_loop_stuck [OF Some [unfolded prepare_packets_def]] show ?thesis by simp
qed

lemma prepare_packets_negative:
  "src \<noteq> [] \<Longrightarrow> c < 0 \<Longrightarrow>
   prepare_packets c src = Some (Inl (if c < -1 then ValueError else OverflowError))"
  by (simp add: prepare_packets_def prepare_loop_negative)

lemma prepare_packets_too_big:
  "65536 \<le> c \<Longrightarrow> 65536 \<le> length src \<Longrightarrow> prepare_packets c src = Some (Inl OverflowError)"
  by (simp add: prepare_packets_def prepare_loop_too_big)

lemma prepare_packets_frames:
  assumes "prepare_packets c src = Some (Inr (frames, fs))" and "f \<in> set frames"
  shows "\<exists>dat. f = frame_of dat \<and> length dat < 65536"
proof -
  have ne: "src \<noteq> []" using assms by (auto simp: prepare_packets_empty)
  have "c \<noteq> 0" using assms(1) prepare_packets_zero [OF ne] by auto
  moreover have "\<not> c < 0" using assms(1) prepare_packets_negative [OF ne, of c] by auto
  ultimately have c: "0 < c" by simp
  have m: "min c (int (length src)) < 65536"
  proof (rule ccontr)
    assume "\<not> min c (int (length src)) < 65536"
    then have "65536 \<le> c" "65536 \<le> length src" by auto
    from prepare_packets_too_big [OF this] assms(1) show False by simp
  qed
  from prepare_packets_chunks [OF c m] assms obtain dat where
    dat: "dat \<in> set (chunks (nat c) src)" "f = frame_of dat" by auto
  have "length dat \<le> nat c" "length dat \<le> length src"
    using chunks_length [of "nat c" dat src] chunks_length_le [OF dat(1)] c dat(1) by auto
  with m have "length dat < 65536" by (auto simp: min_def split: if_splits)
  with dat(2) show ?thesis by blast
qed

section \<open>Sessions\<close>

lemma send_packet_pan:
  assumes "length bs < nat (attempts u)" "\<forall>b\<in>set bs. b \<noteq> PKG_ACK \<and> b \<noteq> PKG_PAN"
    "inbox s = map Reply bs @ Reply PKG_PAN # rest"
  shows "send_packet u p s =
     (Inr False, s\<lparr>sent := sent s @ replicate (Suc (length bs)) p, inbox := rest\<rparr>)"
  unfolding send_packet_def by (rule send_attempts_pan [OF assms])

lemma send_packet_exhausted:
  assumes "length bs = nat (attempts u)" "\<forall>b\<in>set bs. b \<noteq> PKG_ACK \<and> b \<noteq> PKG_PAN"
    "inbox s = map Reply bs @ rest"
  shows "send_packet u p s =
     (Inr False, s\<lparr>sent := sent s @ replicate (nat (attempts u)) p @ [UPD_ERR], inbox := rest\<rparr>)"
  unfolding send_packet_def by (rule send_attempts_exhausted [OF assms])

lemma transaction_pan_first:
  assumes "0 < attempts u" and "inbox s = Reply b0 # Reply PKG_ACK # Reply PKG_PAN # rest"
  shows "transaction u (p # qs) s =
     (Inl (PacketSendError 1 (1 + int (length qs))),
      s\<lparr>sent := sent s @ [firmware_update, UPD_BEG, p], inbox := rest\<rparr>)"
proof -
  let ?s1 = "s\<lparr>sent := sent s @ [firmware_update], inbox := Reply PKG_ACK # Reply PKG_PAN # rest\<rparr>"
  let ?s2 = "?s1\<lparr>sent := sent ?s1 @ [UPD_BEG], inbox := Reply PKG_PAN # rest\<rparr>"
  let ?s3 = "?s2\<lparr>sent := sent ?s2 @ replicate (Suc (length ([]::bytes list))) p, inbox := rest\<rparr>"
  have r1: "recv (send firmware_update s) = (Inr b0, ?s1)"
    using assms(2) by (simp add: recv_reply)
  have r2: "recv (send UPD_BEG ?s1) = (Inr PKG_ACK, ?s2)"
    by (simp add: recv_reply)
  have r3: "send_packet u p ?s2 = (Inr False, ?s3)"
    using assms(1) by (intro send_packet_pan) simp_all
  have "transaction u (p # qs) s = (Inl (PacketSendError (0 + 1) (int (length (p # qs)))), ?s3)"
    unfolding transaction_def r1
    by (simp only: r2 r3 prod.case sum.case send_packets.simps if_False if_True simp_thms)
  then show ?thesis by simp
qed

lemma send_packets_all_ack:
  "0 < attempts u \<Longrightarrow> inbox s = replicate (length pkts) (Reply PKG_ACK) @ rest \<Longrightarrow>
   send_packets u i n pkts s = (Inr (), s\<lparr>sent := sent s @ pkts, inbox := rest\<rparr>)"
proof (induction pkts arbitrary: i s)
  case Nil
  then show ?case by (cases s) simp
next
  case (Cons p pkts)
  let ?s = "s\<lparr>sent := sent s @ [p], inbox := replicate (length pkts) (Reply PKG_ACK) @ rest\<rparr>"
  have sp: "send_packet u p s = (Inr True, ?s)"
    using Cons.prems by (intro send_packet_ack_first) simp_all
  have "send_packets u (i + 1) n pkts ?s = (Inr (), ?s\<lparr>sent := sent ?s @ pkts, inbox := rest\<rparr>)"
    using Cons.prems(1) by (intro Cons.IH) simp_all
  then show ?case by (simp add: sp)
qed

lemma transaction_all_ack:
  assumes "0 < attempts u"
    and "inbox s = replicate (length pkts + 3) (Reply PKG_ACK) @ rest"
  shows "transaction u pkts s =
           (Inr (), s\<lparr>sent := sent s @ [firmware_update, UPD_BEG] @ pkts @ [UPD_END],
                       inbox := rest\<rparr>)"
proof -
  let ?a = "Reply PKG_ACK"
  have i0: "inbox s = ?a # ?a # replicate (length pkts) ?a @ ?a # rest"
    using assms(2) by (simp add: replicate_append_same eval_nat_numeral)
  let ?s1 = "s\<lparr>sent := sent s @ [firmware_update], inbox := ?a # replicate (length pkts) ?a @ ?a # rest\<rparr>"
  let ?s2 = "?s1\<lparr>sent := sent ?s1 @ [UPD_BEG], inbox := replicate (length pkts) ?a @ ?a # rest\<rparr>"
  let ?s3 = "?s2\<lparr>sent := sent ?s2 @ pkts, inbox := ?a # rest\<rparr>"
  let ?s4 = "?s3\<lparr>sent := sent ?s3 @ [UPD_END], inbox := rest\<rparr>"
  have r1: "recv (send firmware_update s) = (Inr PKG_ACK, ?s1)"
    using i0 by (simp add: recv_reply)
  have r2: "recv (send UPD_BEG ?s1) = (Inr PKG_ACK, ?s2)"
    by (simp add: recv_reply)
  have r3: "send_packets u 0 (int (length pkts)) pkts ?s2 = (Inr (), ?s3)"
    using assms(1) by (intro send_packets_all_ack) simp_all
  have r4: "recv (send UPD_END ?s3) = (Inr PKG_ACK, ?s4)"
    by (simp add: recv_reply)
  have "transaction u pkts s = (Inr (), ?s4)"
    unfolding transaction_def r1 by (simp only: r2 r3 r4 prod.case sum.case if_False simp_thms)
  then show ?thesis by simp
qed

lemma upload_firmware_all_ack:
  assumes "prepare_packets (packsize u) src = Some (Inr (pkts, fs))" and "0 < attempts u"
    and "inbox s = replicate (length pkts + 3) (Reply PKG_ACK) @ rest"
  shows "upload_firmware u src s =
           Some (Inr fs, s\<lparr>sent := sent s @ [firmware_update, UPD_BEG] @ pkts @ [UPD_END],
                            inbox := rest\<rparr>)"
  by (simp add: upload_firmware_def assms(1) transaction_all_ack [OF assms(2,3)])

lemma chunks_10_4:
  assumes "length src = 10"
  shows "chunks 4 src = [take 4 src, take 4 (drop 4 src), drop 8 src]"
proof -
  have 1: "chunks 4 src = take 4 src # chunks 4 (drop 4 src)"
    using assms by (subst chunks.simps) auto
  have 2: "chunks 4 (drop 4 src) = take 4 (drop 4 src) # chunks 4 (drop 8 src)"
    using assms by (subst chunks.simps) auto
  have 3: "chunks 4 (drop 8 src) = [drop 8 src]"
    using assms by (subst chunks.simps, subst chunks.simps) auto
  show ?thesis by (simp only: 1 2 3)
qed

lemma prepare_packets_10_4:
  assumes "length src = 10"
  shows "prepare_packets 4 src =
    Some (Inr ([frame_of (take 4 src), frame_of (take 4 (drop 4 src)), frame_of (drop 8 src)], 28))"
proof -
  have "nat 4 = 4" by simp
  then show ?thesis
    using prepare_packets_chunks [of 4 src] assms by (simp add: chunks_10_4)
qed

section \<open>The claims\<close>

subsection \<open>C1: the packets cover the file once, in order\<close>

text \<open>
  Claim C1. For every non-empty file and every chunk size \<open>c > 0\<close>, \<open>prepare_packets\<close>
  returns packets whose payloads, concatenated in order, are the file, and whose payload
  lengths add up to the file's length. The chunk size is a \<open>u16\<close> of the session
  configuration, at most 65535 (what \<open>main\<close> passes is at most 506).
\<close>

theorem prepare_packets_round_trip:
  assumes "src \<noteq> []" and "0 < c" and "c \<le> 65535"
  shows "\<exists>frames fs. prepare_packets c src = Some (Inr (frames, fs))
           \<and> concat (map payload frames) = src
           \<and> sum_list (map (length \<circ> payload) frames) = length src"
proof -
  let ?frames = "map frame_of (chunks (nat c) src)"
  have m: "min c (int (length src)) < 65536" using assms(3) by simp
  have p: "map payload ?frames = chunks (nat c) src"
    by (simp add: o_def payload_frame_of)
  have cc: "concat (chunks (nat c) src) = src"
    using assms(2) by (simp add: chunks_concat)
  have "sum_list (map (length \<circ> payload) ?frames) = length (concat (map payload ?frames))"
    by (simp add: length_concat o_def)
  then have "sum_list (map (length \<circ> payload) ?frames) = length src"
    by (simp only: p cc)
  moreover have "concat (map payload ?frames) = src" by (simp only: p cc)
  ultimately show ?thesis using prepare_packets_chunks [OF assms(2) m] by blast
qed

text \<open>The theorem at a three-byte file cut into chunks of two bytes.\<close>

theorem prepare_packets_round_trip_witness:
  "\<exists>frames fs. prepare_packets 2 [1, 2, 3] = Some (Inr (frames, fs))
      \<and> concat (map payload frames) = [1, 2, 3]
      \<and> sum_list (map (length \<circ> payload) frames) = length [1, 2, 3 :: byte]"
  using prepare_packets_round_trip [of "[1, 2, 3]" 2] by simp

subsection \<open>C2: a read timeout\<close>

text \<open>
  Claim C2. \<open>send_packet\<close> has no handler for the exception \<open>recv\<close> raises on a
  timeout. When the replies to the first attempts are bytes other than \<open>PKG_ACK\<close> and
  \<open>PKG_PAN\<close> and the next \<open>recv\<close> times out, \<open>send_packet\<close> ends with that exception:
  the packet has been sent once per attempt made so far, it is not sent again, and
  \<open>UPD_ERR\<close> is not sent. A timeout is therefore not retried.
\<close>

theorem send_packet_timeout_is_fatal:
  assumes "length bs < nat (attempts u)"
    and "\<forall>b\<in>set bs. b \<noteq> PKG_ACK \<and> b \<noteq> PKG_PAN"
    and "inbox s = map Reply bs @ NoReply # rest"
  shows "send_packet u p s =
           (Inl RecvTimeout, s\<lparr>sent := sent s @ replicate (Suc (length bs)) p, inbox := rest\<rparr>)"
  unfolding send_packet_def by (rule send_attempts_timeout [OF assms])

text \<open>Three attempts allowed; the second reply does not come.\<close>

theorem send_packet_timeout_is_fatal_witness:
  "send_packet \<lparr>timeout = 1, packsize = 506, attempts = 3, verbose = 0\<rparr> [7, 8]
       \<lparr>sent = [], inbox = [Reply PKG_ERR, NoReply, Reply PKG_ACK]\<rparr>
     = (Inl RecvTimeout, \<lparr>sent = [[7, 8], [7, 8]], inbox = [Reply PKG_ACK]\<rparr>)"
proof -
  have ne: "PKG_ERR \<noteq> PKG_ACK" "PKG_ERR \<noteq> PKG_PAN"
    by (simp_all add: PKG_ERR_def PKG_ACK_def PKG_PAN_def)
  show ?thesis
    using send_packet_timeout_is_fatal [of "[PKG_ERR]"
        "\<lparr>timeout = 1, packsize = 506, attempts = 3, verbose = 0\<rparr>"
        "\<lparr>sent = [], inbox = [Reply PKG_ERR, NoReply, Reply PKG_ACK]\<rparr>" "[Reply PKG_ACK]" "[7, 8]"]
    by (simp add: ne eval_nat_numeral)
qed

text \<open>
  Three attempts allowed and a device that never replies: the packet is sent once, not
  three times, and the outcome is the timeout, not the \<open>False\<close> of exhausted attempts.
\<close>

theorem send_packet_timeout_counterexample:
  "send_packet \<lparr>timeout = 1, packsize = 506, attempts = 3, verbose = 0\<rparr> [7, 8]
       \<lparr>sent = [], inbox = [NoReply, NoReply, NoReply]\<rparr>
     = (Inl RecvTimeout, \<lparr>sent = [[7, 8]], inbox = [NoReply, NoReply]\<rparr>)"
  by code_simp

subsection \<open>C3: the first packet that fails\<close>

text \<open>
  Claim C3. While the packets are being sent, let the packets \<open>ps\<close> before \<open>p\<close> have
  succeeded. If \<open>p\<close> uses up its attempts (every reply a byte other than \<open>PKG_ACK\<close> and
  \<open>PKG_PAN\<close>), it is sent that many times, then \<open>UPD_ERR\<close> is sent once, no later packet
  is sent, and the session fails with the send error of \<open>p\<close>, numbered from 1. If the
  device answers \<open>PKG_PAN\<close>, the session fails with the same error and no later packet is
  sent, but \<open>UPD_ERR\<close> is not sent. In particular a device that accepts the handshake
  and answers \<open>PKG_PAN\<close> to the first packet makes the session fail at packet 1 with
  nothing sent after that packet.
\<close>

theorem transfer_first_failure:
  "(send_packets u i n ps s = (Inr (), s1)
      \<and> (\<forall>b\<in>set bs. b \<noteq> PKG_ACK \<and> b \<noteq> PKG_PAN)
      \<and> length bs = nat (attempts u) \<and> inbox s1 = map Reply bs @ rest
    \<longrightarrow> send_packets u i n (ps @ p # qs) s =
          (Inl (PacketSendError (i + int (length ps) + 1) n),
           s1\<lparr>sent := sent s1 @ replicate (nat (attempts u)) p @ [UPD_ERR], inbox := rest\<rparr>))
 \<and> (send_packets u i n ps s = (Inr (), s1)
      \<and> (\<forall>b\<in>set bs. b \<noteq> PKG_ACK \<and> b \<noteq> PKG_PAN)
      \<and> length bs < nat (attempts u) \<and> inbox s1 = map Reply bs @ Reply PKG_PAN # rest
    \<longrightarrow> send_packets u i n (ps @ p # qs) s =
          (Inl (PacketSendError (i + int (length ps) + 1) n),
           s1\<lparr>sent := sent s1 @ replicate (Suc (length bs)) p, inbox := rest\<rparr>))
 \<and> (0 < attempts u \<and> inbox s = Reply b0 # Reply PKG_ACK # Reply PKG_PAN # rest
    \<longrightarrow> transaction u (p # qs) s =
          (Inl (PacketSendError 1 (1 + int (length qs))),
           s\<lparr>sent := sent s @ [firmware_update, UPD_BEG, p], inbox := rest\<rparr>))"
proof (intro conjI impI)
  assume a: "send_packets u i n ps s = (Inr (), s1)
      \<and> (\<forall>b\<in>set bs. b \<noteq> PKG_ACK \<and> b \<noteq> PKG_PAN)
      \<and> length bs = nat (attempts u) \<and> inbox s1 = map Reply bs @ rest"
  then have "send_packet u p s1 =
      (Inr False, s1\<lparr>sent := sent s1 @ replicate (nat (attempts u)) p @ [UPD_ERR], inbox := rest\<rparr>)"
    by (intro send_packet_exhausted) simp_all
  with a show "send_packets u i n (ps @ p # qs) s =
          (Inl (PacketSendError (i + int (length ps) + 1) n),
           s1\<lparr>sent := sent s1 @ replicate (nat (attempts u)) p @ [UPD_ERR], inbox := rest\<rparr>)"
    by (intro send_packets_fail) simp_all
next
  assume a: "send_packets u i n ps s = (Inr (), s1)
      \<and> (\<forall>b\<in>set bs. b \<noteq> PKG_ACK \<and> b \<noteq> PKG_PAN)
      \<and> length bs < nat (attempts u) \<and> inbox s1 = map Reply bs @ Reply PKG_PAN # rest"
  then have "send_packet u p s1 =
      (Inr False, s1\<lparr>sent := sent s1 @ replicate (Suc (length bs)) p, inbox := rest\<rparr>)"
    by (intro send_packet_pan) simp_all
  with a show "send_packets u i n (ps @ p # qs) s =
          (Inl (PacketSendError (i + int (length ps) + 1) n),
           s1\<lparr>sent := sent s1 @ replicate (Suc (length bs)) p, inbox := rest\<rparr>)"
    by (intro send_packets_fail) simp_all
next
  assume "0 < attempts u \<and> inbox s = Reply b0 # Reply PKG_ACK # Reply PKG_PAN # rest"
  then show "transaction u (p # qs) s =
          (Inl (PacketSendError 1 (1 + int (length qs))),
           s\<lparr>sent := sent s @ [firmware_update, UPD_BEG, p], inbox := rest\<rparr>)"
    by (intro transaction_pan_first) simp_all
qed

text \<open>
  Two attempts per packet and three packets. The first is acknowledged; the second
  uses up its attempts, or is refused with \<open>PKG_PAN\<close> on its second attempt; and a
  session whose first packet is refused at once.
\<close>

theorem transfer_first_failure_witness:
  "send_packets \<lparr>timeout = 1, packsize = 506, attempts = 2, verbose = 0\<rparr> 0 3 ([[1]] @ [2] # [[3]])
       \<lparr>sent = [], inbox = [Reply PKG_ACK, Reply PKG_ERR, Reply PKG_ERR]\<rparr>
     = (Inl (PacketSendError 2 3), \<lparr>sent = [[1], [2], [2], UPD_ERR], inbox = []\<rparr>)
   \<and> send_packets \<lparr>timeout = 1, packsize = 506, attempts = 2, verbose = 0\<rparr> 0 3 ([[1]] @ [2] # [[3]])
       \<lparr>sent = [], inbox = [Reply PKG_ACK, Reply PKG_ERR, Reply PKG_PAN]\<rparr>
     = (Inl (PacketSendError 2 3), \<lparr>sent = [[1], [2], [2]], inbox = []\<rparr>)
   \<and> transaction \<lparr>timeout = 1, packsize = 506, attempts = 2, verbose = 0\<rparr> ([2] # [[3]])
       \<lparr>sent = [], inbox = [Reply PKG_ACK, Reply PKG_ACK, Reply PKG_PAN]\<rparr>
     = (Inl (PacketSendError 1 2), \<lparr>sent = [firmware_update, UPD_BEG, [2]], inbox = []\<rparr>)"
proof -
  let ?u = "\<lparr>timeout = 1, packsize = 506, attempts = 2, verbose = 0\<rparr>"
  have ne: "PKG_ERR \<noteq> PKG_ACK" "PKG_ERR \<noteq> PKG_PAN"
    by (simp_all add: PKG_ERR_def PKG_ACK_def PKG_PAN_def)
  let ?sa = "\<lparr>sent = [], inbox = [Reply PKG_ACK, Reply PKG_ERR, Reply PKG_ERR]\<rparr>"
  let ?sa1 = "\<lparr>sent = [[1]], inbox = [Reply PKG_ERR, Reply PKG_ERR]\<rparr>"
  let ?sb = "\<lparr>sent = [], inbox = [Reply PKG_ACK, Reply PKG_ERR, Reply PKG_PAN]\<rparr>"
  let ?sb1 = "\<lparr>sent = [[1]], inbox = [Reply PKG_ERR, Reply PKG_PAN]\<rparr>"
  let ?sc = "\<lparr>sent = [], inbox = [Reply PKG_ACK, Reply PKG_ACK, Reply PKG_PAN]\<rparr>"
  have ok1: "send_packets ?u 0 3 [[1]] ?sa = (Inr (), ?sa1)"
    by code_simp
  have ok2: "send_packets ?u 0 3 [[1]] ?sb = (Inr (), ?sb1)"
    by code_simp
  have p1: "send_packets ?u 0 3 [[1]] ?sa = (Inr (), ?sa1)
      \<and> (\<forall>b\<in>set [PKG_ERR, PKG_ERR]. b \<noteq> PKG_ACK \<and> b \<noteq> PKG_PAN)
      \<and> length [PKG_ERR, PKG_ERR] = nat (attempts ?u)
      \<and> inbox ?sa1 = map Reply [PKG_ERR, PKG_ERR] @ []"
    by (intro conjI ok1) (simp_all add: ne)
  have p2: "send_packets ?u 0 3 [[1]] ?sb = (Inr (), ?sb1)
      \<and> (\<forall>b\<in>set [PKG_ERR]. b \<noteq> PKG_ACK \<and> b \<noteq> PKG_PAN)
      \<and> length [PKG_ERR] < nat (attempts ?u)
      \<and> inbox ?sb1 = map Reply [PKG_ERR] @ Reply PKG_PAN # []"
    by (intro conjI ok2) (simp_all add: ne)
  have p3: "0 < attempts ?u \<and> inbox ?sc = Reply PKG_ACK # Reply PKG_ACK # Reply PKG_PAN # []"
    by simp
  note w1 = transfer_first_failure [THEN conjunct1, THEN mp, OF p1, of "[2]" "[[3]]"]
  note w2 = transfer_first_failure [THEN conjunct2, THEN conjunct1, THEN mp, OF p2, of "[2]" "[[3]]"]
  note w3 = transfer_first_failure [THEN conjunct2, THEN conjunct2, THEN mp, OF p3, of "[2]" "[[3]]"]
  have e1: "(Inl (PacketSendError (0 + int (length [[1 :: byte]]) + 1) 3),
             ?sa1\<lparr>sent := sent ?sa1 @ replicate (nat (attempts ?u)) [2] @ [UPD_ERR], inbox := []\<rparr>)
          = (Inl (PacketSendError 2 3), \<lparr>sent = [[1], [2], [2], UPD_ERR], inbox = []\<rparr>)"
    by (simp add: eval_nat_numeral)
  have e2: "(Inl (PacketSendError (0 + int (length [[1 :: byte]]) + 1) 3),
             ?sb1\<lparr>sent := sent ?sb1 @ replicate (Suc (length [PKG_ERR])) [2], inbox := []\<rparr>)
          = (Inl (PacketSendError 2 3), \<lparr>sent = [[1], [2], [2]], inbox = []\<rparr>)"
    by simp
  have e3: "(Inl (PacketSendError 1 (1 + int (length [[3 :: byte]]))),
             ?sc\<lparr>sent := sent ?sc @ [firmware_update, UPD_BEG, [2]], inbox := []\<rparr>)
          = (Inl (PacketSendError 1 2), \<lparr>sent = [firmware_update, UPD_BEG, [2]], inbox = []\<rparr>)"
    by simp
  show ?thesis
    by (intro conjI trans [OF w1 e1] trans [OF w2 e2] trans [OF w3 e3])
qed

text \<open>
  A ten-byte file in chunks of four; the device accepts the handshake and answers
  \<open>PKG_PAN\<close> to the first packet. The session fails at packet 1 of 3, and the last thing
  sent is that packet: no \<open>UPD_ERR\<close> byte follows.
\<close>

theorem abort_sends_no_error_byte_counterexample:
  "upload_firmware \<lparr>timeout = 1, packsize = 4, attempts = 3, verbose = 0\<rparr>
        [0, 1, 2, 3, 4, 5, 6, 7, 8, 9]
        \<lparr>sent = [], inbox = [Reply PKG_ACK, Reply PKG_ACK, Reply PKG_PAN]\<rparr>
   = Some (Inl (PacketSendError 1 3),
           \<lparr>sent = [firmware_update, UPD_BEG, [4, 0, 0x13, 0x86, 0xB9, 0x8B, 0, 1, 2, 3]],
              inbox = []\<rparr>)"
  by code_simp

subsection \<open>C4: an empty file, a chunk size of zero\<close>

text \<open>
  Claim C4. \<open>prepare_packets\<close> checks neither the chunk size nor the file. For an empty
  file the loop body never runs and the result is the empty packet list with
  \<open>full_size = 0\<close>, whatever the chunk size: no error is raised.
\<close>

theorem prepare_packets_empty_file:
  "prepare_packets c [] = Some (Inr ([], 0))"
  unfolding prepare_packets_def by (subst prepare_loop.simps) simp

text \<open>
  An empty file with chunk size 0 and with chunk size 4: both calls return normally,
  with no packets.
\<close>

theorem prepare_packets_no_error_counterexample:
  "prepare_packets 0 [] = Some (Inr ([], 0)) \<and> prepare_packets 4 [] = Some (Inr ([], 0))"
  by (simp add: prepare_packets_empty)

subsection \<open>C5: ten bytes in chunks of four\<close>

text \<open>
  Claim C5. For a ten-byte file and chunk size 4, \<open>prepare_packets\<close> returns three packets
  with payloads of 4, 4 and 2 bytes, and a session in which the device answers \<open>PKG_ACK\<close>
  to everything ends normally, having sent the announcement, \<open>UPD_BEG\<close>, the three
  packets and \<open>UPD_END\<close>. \<open>self.full_size\<close> adds up \<open>len(result[-1])\<close>, the length of each
  whole packet, so it is 28: the ten bytes of the file and six header bytes for each of
  the three packets.
\<close>

theorem ten_bytes_in_chunks_of_four:
  assumes "length src = 10" and "packsize u = 4" and "0 < attempts u"
    and "inbox s = replicate 6 (Reply PKG_ACK) @ rest"
  shows "\<exists>f1 f2 f3. prepare_packets 4 src = Some (Inr ([f1, f2, f3], 28))
           \<and> map (length \<circ> payload) [f1, f2, f3] = [4, 4, 2]
           \<and> upload_firmware u src s =
               Some (Inr 28, s\<lparr>sent := sent s @ [firmware_update, UPD_BEG, f1, f2, f3, UPD_END],
                                inbox := rest\<rparr>)"
proof -
  let ?f1 = "frame_of (take 4 src)" and ?f2 = "frame_of (take 4 (drop 4 src))"
    and ?f3 = "frame_of (drop 8 src)"
  have p: "prepare_packets 4 src = Some (Inr ([?f1, ?f2, ?f3], 28))"
    by (rule prepare_packets_10_4 [OF assms(1)])
  have l: "map (length \<circ> payload) [?f1, ?f2, ?f3] = [4, 4, 2]"
    using assms(1) by (simp add: payload_frame_of)
  have "upload_firmware u src s =
      Some (Inr 28, s\<lparr>sent := sent s @ [firmware_update, UPD_BEG] @ [?f1, ?f2, ?f3] @ [UPD_END],
                       inbox := rest\<rparr>)"
    using assms(2,4) p by (intro upload_firmware_all_ack [OF _ assms(3)]) simp_all
  with p l show ?thesis by (intro exI conjI) simp_all
qed

text \<open>The bytes 0 to 9, three attempts per packet, six acknowledgements.\<close>

theorem ten_bytes_in_chunks_of_four_witness:
  "\<exists>f1 f2 f3. prepare_packets 4 [0, 1, 2, 3, 4, 5, 6, 7, 8, 9] = Some (Inr ([f1, f2, f3], 28))
     \<and> map (length \<circ> payload) [f1, f2, f3] = [4, 4, 2]
     \<and> upload_firmware \<lparr>timeout = 1, packsize = 4, attempts = 3, verbose = 0\<rparr>
          [0, 1, 2, 3, 4, 5, 6, 7, 8, 9] \<lparr>sent = [], inbox = replicate 6 (Reply PKG_ACK)\<rparr> =
         Some (Inr 28, \<lparr>sent = [firmware_update, UPD_BEG, f1, f2, f3, UPD_END], inbox = []\<rparr>)"
  using ten_bytes_in_chunks_of_four [of "[0, 1, 2, 3, 4, 5, 6, 7, 8, 9]"
      "\<lparr>timeout = 1, packsize = 4, attempts = 3, verbose = 0\<rparr>"
      "\<lparr>sent = [], inbox = replicate 6 (Reply PKG_ACK)\<rparr>" "[]"]
  by simp

text \<open>The same session ends with \<open>full_size = 28\<close>, not 10.\<close>

theorem full_size_counts_headers_counterexample:
  "map_option fst
     (upload_firmware \<lparr>timeout = 1, packsize = 4, attempts = 3, verbose = 0\<rparr>
        [0, 1, 2, 3, 4, 5, 6, 7, 8, 9]
        \<lparr>sent = [], inbox = replicate 6 (Reply PKG_ACK)\<rparr>) = Some (Inr 28)"
  by code_simp

subsection \<open>C6: the reply \<open>PKG_PAN\<close>\<close>

text \<open>
  Claim C6. When the device answers \<open>PKG_PAN\<close> on an attempt within the allowed number,
  after replies that were bytes other than \<open>PKG_ACK\<close> and \<open>PKG_PAN\<close>, \<open>send_packet\<close>
  returns at once: the packet has been sent once per attempt so far and nothing else is
  sent. What the caller gets is \<open>False\<close>, the value \<open>send_packet\<close> also returns when the
  attempts are used up; the two cases differ only in the \<open>UPD_ERR\<close> byte sent in the
  second.
\<close>

theorem send_packet_abort:
  assumes "length bs < nat (attempts u)"
    and "\<forall>b\<in>set bs. b \<noteq> PKG_ACK \<and> b \<noteq> PKG_PAN"
    and "inbox s = map Reply bs @ Reply PKG_PAN # rest"
  shows "send_packet u p s =
           (Inr False, s\<lparr>sent := sent s @ replicate (Suc (length bs)) p, inbox := rest\<rparr>)
       \<and> (length bs' = nat (attempts u) \<and> (\<forall>b\<in>set bs'. b \<noteq> PKG_ACK \<and> b \<noteq> PKG_PAN)
            \<and> inbox s' = map Reply bs' @ rest'
          \<longrightarrow> fst (send_packet u p s') = fst (send_packet u p s))"
  using send_packet_pan [OF assms, of p] send_packet_exhausted [of bs' u s' rest' p]
  by simp

text \<open>Three attempts allowed, \<open>PKG_PAN\<close> on the second; and three replies \<open>PKG_ERR\<close>.\<close>

theorem send_packet_abort_witness:
  "send_packet \<lparr>timeout = 1, packsize = 506, attempts = 3, verbose = 0\<rparr> [7, 8]
       \<lparr>sent = [], inbox = [Reply PKG_ERR, Reply PKG_PAN, Reply PKG_ACK]\<rparr>
     = (Inr False, \<lparr>sent = [[7, 8], [7, 8]], inbox = [Reply PKG_ACK]\<rparr>)
   \<and> fst (send_packet \<lparr>timeout = 1, packsize = 506, attempts = 3, verbose = 0\<rparr> [7, 8]
       \<lparr>sent = [], inbox = [Reply PKG_ERR, Reply PKG_ERR, Reply PKG_ERR]\<rparr>)
     = fst (send_packet \<lparr>timeout = 1, packsize = 506, attempts = 3, verbose = 0\<rparr> [7, 8]
       \<lparr>sent = [], inbox = [Reply PKG_ERR, Reply PKG_PAN, Reply PKG_ACK]\<rparr>)"
proof -
  have ne: "PKG_ERR \<noteq> PKG_ACK" "PKG_ERR \<noteq> PKG_PAN"
    by (simp_all add: PKG_ERR_def PKG_ACK_def PKG_PAN_def)
  show ?thesis
    using send_packet_abort [of "[PKG_ERR]"
        "\<lparr>timeout = 1, packsize = 506, attempts = 3, verbose = 0\<rparr>"
        "\<lparr>sent = [], inbox = [Reply PKG_ERR, Reply PKG_PAN, Reply PKG_ACK]\<rparr>" "[Reply PKG_ACK]"
        "[7, 8]" "[PKG_ERR, PKG_ERR, PKG_ERR]"
        "\<lparr>sent = [], inbox = [Reply PKG_ERR, Reply PKG_ERR, Reply PKG_ERR]\<rparr>" "[]"]
    by (simp add: ne eval_nat_numeral)
qed

text \<open>
  The caller of \<open>send_packet\<close> gets the same value from a packet refused with \<open>PKG_PAN\<close>
  and from a packet whose three attempts were answered \<open>PKG_ERR\<close>.
\<close>

theorem abort_looks_like_exhaustion_counterexample:
  "fst (send_packet \<lparr>timeout = 1, packsize = 506, attempts = 3, verbose = 0\<rparr> [7, 8]
          \<lparr>sent = [], inbox = [Reply PKG_PAN]\<rparr>) = Inr False
   \<and> fst (send_packet \<lparr>timeout = 1, packsize = 506, attempts = 3, verbose = 0\<rparr> [7, 8]
          \<lparr>sent = [], inbox = [Reply PKG_ERR, Reply PKG_ERR, Reply PKG_ERR]\<rparr>) = Inr False"
  by code_simp

subsection \<open>C7: at most \<open>attempts\<close> sends of a packet\<close>

text \<open>
  Claim C7. With \<open>attempts = N > 0\<close>, \<open>send_packet\<close> sends the packet at most \<open>N\<close> times,
  whatever the device does: what it sends is some \<open>m \<le> N\<close> copies of the packet,
  followed or not by \<open>UPD_ERR\<close>. If each of the \<open>N\<close> replies is a byte other than
  \<open>PKG_ACK\<close> and \<open>PKG_PAN\<close> (\<open>PKG_ERR\<close> among them), the packet is sent exactly \<open>N\<close> times,
  then \<open>UPD_ERR\<close>, and the result is \<open>False\<close>. If such replies are followed by \<open>PKG_ACK\<close>
  on attempt \<open>k \<le> N\<close>, the packet has been sent exactly \<open>k\<close> times and the result is
  \<open>True\<close>.
\<close>

theorem send_packet_attempts:
  assumes "0 < attempts u"
  shows "(\<exists>m\<le>nat (attempts u).
            sent (snd (send_packet u p s)) = sent s @ replicate m p
          \<or> sent (snd (send_packet u p s)) = sent s @ replicate m p @ [UPD_ERR])
       \<and> (length bs = nat (attempts u) \<and> (\<forall>b\<in>set bs. b \<noteq> PKG_ACK \<and> b \<noteq> PKG_PAN)
            \<and> inbox s = map Reply bs @ rest
          \<longrightarrow> send_packet u p s =
                (Inr False, s\<lparr>sent := sent s @ replicate (nat (attempts u)) p @ [UPD_ERR],
                               inbox := rest\<rparr>))
       \<and> (length bs < nat (attempts u) \<and> (\<forall>b\<in>set bs. b \<noteq> PKG_ACK \<and> b \<noteq> PKG_PAN)
            \<and> inbox s = map Reply bs @ Reply PKG_ACK # rest
          \<longrightarrow> send_packet u p s =
                (Inr True, s\<lparr>sent := sent s @ replicate (Suc (length bs)) p, inbox := rest\<rparr>))"
  unfolding send_packet_def
  using send_attempts_sent [of "nat (attempts u)" p s]
    send_attempts_exhausted [of bs "nat (attempts u)" s rest p]
    send_attempts_ack [of bs "nat (attempts u)" s rest p]
  by blast

text \<open>
  Three attempts: three replies that are neither \<open>PKG_ACK\<close> nor \<open>PKG_PAN\<close>, and
  \<open>PKG_ACK\<close> on the second attempt.
\<close>

theorem send_packet_attempts_witness:
  "send_packet \<lparr>timeout = 1, packsize = 506, attempts = 3, verbose = 0\<rparr> [7, 8]
       \<lparr>sent = [], inbox = [Reply PKG_ERR, Reply [0x42], Reply PKG_ERR, Reply PKG_ACK]\<rparr>
     = (Inr False, \<lparr>sent = [[7, 8], [7, 8], [7, 8], UPD_ERR], inbox = [Reply PKG_ACK]\<rparr>)
   \<and> send_packet \<lparr>timeout = 1, packsize = 506, attempts = 3, verbose = 0\<rparr> [7, 8]
       \<lparr>sent = [], inbox = [Reply PKG_ERR, Reply PKG_ACK, Reply PKG_ERR]\<rparr>
     = (Inr True, \<lparr>sent = [[7, 8], [7, 8]], inbox = [Reply PKG_ERR]\<rparr>)"
proof -
  let ?u = "\<lparr>timeout = 1, packsize = 506, attempts = 3, verbose = 0\<rparr>"
  have ne: "PKG_ERR \<noteq> PKG_ACK" "PKG_ERR \<noteq> PKG_PAN" "[0x42] \<noteq> PKG_ACK" "[0x42] \<noteq> PKG_PAN"
    by (simp_all add: PKG_ERR_def PKG_ACK_def PKG_PAN_def)
  have a: "(0::int) < attempts ?u" by simp
  show ?thesis
    using send_packet_attempts [OF a, of "[7, 8]"
          "\<lparr>sent = [], inbox = [Reply PKG_ERR, Reply [0x42], Reply PKG_ERR, Reply PKG_ACK]\<rparr>"
          "[PKG_ERR, [0x42], PKG_ERR]" "[Reply PKG_ACK]"]
      send_packet_attempts [OF a, of "[7, 8]"
          "\<lparr>sent = [], inbox = [Reply PKG_ERR, Reply PKG_ACK, Reply PKG_ERR]\<rparr>"
          "[PKG_ERR]" "[Reply PKG_ERR]"]
    by (simp add: ne eval_nat_numeral)
qed

subsection \<open>C8: the layout of a packet\<close>

text \<open>
  Claim C8. Every packet \<open>prepare_packets\<close> returns is the two little-endian bytes of its
  payload's length, then the four little-endian bytes of the CRC-32 of the payload, then
  the payload; read back, the stored length is the payload's length and the stored
  checksum is the CRC-32 of the payload.
\<close>

theorem packet_layout:
  assumes "prepare_packets c src = Some (Inr (frames, fs))" and "f \<in> set frames"
  shows "f = le_bytes 2 (int (length (payload f))) @ le_bytes 4 (crc32 (payload f)) @ payload f
       \<and> stored_length f = int (length (payload f))
       \<and> stored_crc f = crc32 (payload f)"
proof -
  from prepare_packets_frames [OF assms] obtain dat where
    dat: "f = frame_of dat" "length dat < 65536" by blast
  show ?thesis
    unfolding dat(1) payload_frame_of stored_length_frame_of [OF dat(2)] stored_crc_frame_of
    by (simp add: frame_of_def)
qed

text \<open>The first packet of the file \<open>1, 2, 3\<close> cut into chunks of two bytes.\<close>

theorem packet_layout_witness:
  "[2, 0, 146, 66, 204, 182, 1, 2] =
      le_bytes 2 (int (length (payload [2, 0, 146, 66, 204, 182, 1, 2])))
        @ le_bytes 4 (crc32 (payload [2, 0, 146, 66, 204, 182, 1, 2]))
        @ payload [2, 0, 146, 66, 204, 182, 1, 2]
    \<and> stored_length [2, 0, 146, 66, 204, 182, 1, 2]
        = int (length (payload [2, 0, 146, 66, 204, 182, 1, 2]))
    \<and> stored_crc [2, 0, 146, 66, 204, 182, 1, 2] = crc32 (payload [2, 0, 146, 66, 204, 182, 1, 2])"
proof -
  have h: "prepare_packets 2 [1, 2, 3] =
      Some (Inr ([[2, 0, 146, 66, 204, 182, 1, 2], [1, 0, 55, 190, 11, 75, 3]], 15))"
    by code_simp
  have m: "[2, 0, 146, 66, 204, 182, 1, 2]
      \<in> set [[2, 0, 146, 66, 204, 182, 1, 2], [1, 0, 55, 190, 11, 75, 3 :: byte]]"
    by simp
  show ?thesis by (rule packet_layout [OF h m])
qed

subsection \<open>C9: the packet size on the command line\<close>

text \<open>
  Claim C9. \<open>check_size\<close> accepts every size from 1 to 512 and does not take the six
  header bytes into account. The size 6 is accepted, the updater built from it has
  \<open>packsize = 0\<close>, and with that \<open>prepare_packets\<close> does not return on a file of one byte:
  each round of the loop reads nothing and leaves \<open>size\<close> as it is.
\<close>

theorem check_size_accepts_header_only:
  "check_size 6 = Inr 6
   \<and> packsize (main_updater \<lparr>attemtps = 3, arg_packsize = 6, arg_verbose = 0\<rparr>) = 0
   \<and> prepare_packets
        (packsize (main_updater \<lparr>attemtps = 3, arg_packsize = 6, arg_verbose = 0\<rparr>)) [0x00] = None"
proof -
  have p: "packsize (main_updater \<lparr>attemtps = 3, arg_packsize = 6, arg_verbose = 0\<rparr>) = 0"
    by (simp add: main_updater_def main_kwargs_def init_def pop_def CRC_SIZE_def PKG_SIZE_def)
  have "prepare_packets 0 [0x00] = None" by (rule prepare_packets_zero) simp
  then show ?thesis by (simp add: p check_size_def)
qed

subsection \<open>C10: the number of attempts on the command line\<close>

text \<open>
  Claim C10. \<open>main\<close> parses \<open>--attemtps\<close> and does not pass it to the constructor, so
  the updater keeps the default of three attempts. With \<open>--attemtps 5\<close> and a device
  that always answers \<open>PKG_ERR\<close>, a packet is sent three times, not five.
\<close>

theorem main_ignores_attempts:
  "attempts (main_updater \<lparr>attemtps = 5, arg_packsize = 512, arg_verbose = 0\<rparr>) = 3
   \<and> send_packet (main_updater \<lparr>attemtps = 5, arg_packsize = 512, arg_verbose = 0\<rparr>) [0x01]
        \<lparr>sent = [], inbox = replicate 5 (Reply PKG_ERR)\<rparr>
      = (Inr False, \<lparr>sent = [[0x01], [0x01], [0x01], UPD_ERR], inbox = replicate 2 (Reply PKG_ERR)\<rparr>)"
  by code_simp

end
